theory Spec2Isabelle
  imports Main "HOL-Library.Word" "HOL-Library.AList" "HOL-Library.Multiset"
begin

unbundle bit_operations_syntax

section \<open>The node abstraction consumed by addfs (package fsnode)\<close>

text \<open>
  The file \<^verbatim>\<open>file/addfs/per_node.go\<close> builds an overlay over a tree of \<^verbatim>\<open>fsnode.T\<close>
  nodes. Package \<^verbatim>\<open>fsnode\<close> is a collaborator; the parts of it that
  \<^verbatim>\<open>per_node.go\<close> calls are modelled below, each marked as such.
\<close>

text \<open>
  Modelled from the spec: the metadata of a node (\<^verbatim>\<open>fsnode.FileInfo\<close>): name, mode
  (whose low nine bits are the permission bits, as in Go's \<^verbatim>\<open>os.FileMode\<close>),
  modification time and cache-validity duration. Times and durations are integers.
\<close>

record fileinfo =
  Name :: string
  Mode :: "32 word"
  ModTime :: int
  cacheableFor :: int

text \<open>Go's \<^verbatim>\<open>os.ModePerm = 0777\<close>, \<^verbatim>\<open>os.ModeDir = 1 << 31\<close> and \<^verbatim>\<open>FileMode.Perm\<close>.\<close>

definition ModePerm :: "32 word" where
  "ModePerm = 511"

definition ModeDir :: "32 word" where
  "ModeDir = push_bit 31 1"

definition Perm :: "32 word \<Rightarrow> 32 word" where
  "Perm m = m AND ModePerm"

text \<open>
  Modelled from the spec: the constructors and updaters of \<^verbatim>\<open>fsnode.FileInfo\<close> used by
  \<^verbatim>\<open>per_node.go\<close>. \<^verbatim>\<open>NewDirInfo\<close> makes the metadata of a directory with the given
  name and everything else zero; \<^verbatim>\<open>WithModePerm\<close> replaces the permission bits and
  keeps the type bits; \<^verbatim>\<open>CopyFileInfo\<close> copies every attribute.
\<close>

definition NewDirInfo :: "string \<Rightarrow> fileinfo" where
  "NewDirInfo n = \<lparr>Name = n, Mode = ModeDir, ModTime = 0, cacheableFor = 0\<rparr>"

definition WithName :: "string \<Rightarrow> fileinfo \<Rightarrow> fileinfo" where
  "WithName n f = f\<lparr>Name := n\<rparr>"

definition WithModTime :: "int \<Rightarrow> fileinfo \<Rightarrow> fileinfo" where
  "WithModTime t f = f\<lparr>ModTime := t\<rparr>"

definition WithModePerm :: "32 word \<Rightarrow> fileinfo \<Rightarrow> fileinfo" where
  "WithModePerm perm f = f\<lparr>Mode := (perm AND ModePerm) OR (Mode f AND NOT ModePerm)\<rparr>"

definition WithCacheableFor :: "int \<Rightarrow> fileinfo \<Rightarrow> fileinfo" where
  "WithCacheableFor d f = f\<lparr>cacheableFor := d\<rparr>"

definition CopyFileInfo :: "fileinfo \<Rightarrow> fileinfo" where
  "CopyFileInfo f =
     \<lparr>Name = Name f, Mode = Mode f, ModTime = ModTime f, cacheableFor = cacheableFor f\<rparr>"

text \<open>
  Errors. \<^verbatim>\<open>ErrNotExist\<close> is the lookup failure of a directory, \<^verbatim>\<open>ErrOther\<close> stands
  for any error value a collaborator returns, and \<^verbatim>\<open>ErrRunningFunc text err\<close> is the
  value of \<^verbatim>\<open>fmt.Errorf("addfs: error running func %v: %w", fn, err)\<close>: it carries the
  text that \<^verbatim>\<open>%v\<close> prints for the function and the wrapped error, and nothing else.
\<close>

datatype error =
    ErrNotExist
  | ErrOther string
  | ErrRunningFunc string error

text \<open>
  Modelled from the spec: the nodes of package \<^verbatim>\<open>fsnode\<close>. A node either lacks the
  Parent capability (\<^verbatim>\<open>Leaf\<close>) or is a \<^verbatim>\<open>fsnode.Parent\<close>, which has lookup by name
  and a finite child sequence. The parents are:
  \<^item> \<^verbatim>\<open>Dir info children\<close>, a directory of the original tree with a constant list of
    children;
  \<^item> \<^verbatim>\<open>PerNodeImpl Parent fns adds\<close>, the struct \<^verbatim>\<open>perNodeImpl\<close>;
  \<^item> \<^verbatim>\<open>PerNodeAdds FileInfo original fns\<close>, the struct \<^verbatim>\<open>perNodeAdds\<close>;
  \<^item> \<^verbatim>\<open>AddsForChild info original fns\<close>, the value
    \<^verbatim>\<open>fsnode.NewParent(info, fsnode.FuncChildren(closure))\<close> that
    \<^verbatim>\<open>newAddsForChild\<close> returns, where the closure captures \<^verbatim>\<open>original\<close> and
    \<^verbatim>\<open>n.fns\<close>.
  The type \<open>'f\<close> is the type of \<^verbatim>\<open>PerNodeFunc\<close> values.
\<close>

datatype 'f node =
    Leaf fileinfo
  | ParentNode "'f parent"
and 'f parent =
    Dir fileinfo "'f node list"
  | PerNodeImpl "'f parent" "'f list" "'f parent"
  | PerNodeAdds fileinfo "'f parent" "'f list"
  | AddsForChild fileinfo "'f node" "'f list"

text \<open>
  \<^verbatim>\<open>PerNodeFunc.Apply(ctx, node)\<close>: the behaviour of the functions is a parameter of the
  model, of this type. \<open>'c\<close> is the type of contexts. What package \<^verbatim>\<open>fmt\<close> prints for
  a function value under \<^verbatim>\<open>%v\<close> is a second parameter, \<open>fmtV\<close>, of type
  \<open>'f \<Rightarrow> string\<close>: for a plain Go function it is a code address, so two different
  functions may print the same.
\<close>

type_synonym ('c, 'f) applyFn = "'c \<Rightarrow> 'f \<Rightarrow> 'f node \<Rightarrow> error + 'f node list"

text \<open>
  \<^verbatim>\<open>Info()\<close>. \<^verbatim>\<open>perNodeImpl\<close> embeds the original Parent, so its \<^verbatim>\<open>Info\<close> is the
  original's; \<^verbatim>\<open>perNodeAdds\<close> embeds a \<^verbatim>\<open>FileInfo\<close>.
\<close>

fun Parent_Info :: "'f parent \<Rightarrow> fileinfo" where
  "Parent_Info (Dir info children) = info"
| "Parent_Info (PerNodeImpl Parent fns adds) = Parent_Info Parent"
| "Parent_Info (PerNodeAdds FileInfo original fns) = FileInfo"
| "Parent_Info (AddsForChild info original fns) = info"

fun Info :: "'f node \<Rightarrow> fileinfo" where
  "Info (Leaf info) = info"
| "Info (ParentNode p) = Parent_Info p"

text \<open>
  \<^verbatim>\<open>fsnode.CacheableFor(node)\<close>: the node's own \<^verbatim>\<open>CacheableFor()\<close>. For
  \<^verbatim>\<open>perNodeImpl\<close> that is line 96 of the source,
  \<^verbatim>\<open>fsnode.CacheableFor(n.Parent)\<close>; the other nodes answer from their metadata.
\<close>

fun Parent_CacheableFor :: "'f parent \<Rightarrow> int" where
  "Parent_CacheableFor (Dir info children) = cacheableFor info"
| "Parent_CacheableFor (PerNodeImpl Parent fns adds) = Parent_CacheableFor Parent"
| "Parent_CacheableFor (PerNodeAdds FileInfo original fns) = cacheableFor FileInfo"
| "Parent_CacheableFor (AddsForChild info original fns) = cacheableFor info"

fun CacheableFor :: "'f node \<Rightarrow> int" where
  "CacheableFor (Leaf info) = cacheableFor info"
| "CacheableFor (ParentNode p) = Parent_CacheableFor p"

section \<open>The overlay (per\_node.go)\<close>

definition addsDirName :: string where
  "addsDirName = ''...''"

text \<open>\<^verbatim>\<open>ApplyPerNodeFuncs\<close>, lines 86 to 94.\<close>

definition ApplyPerNodeFuncs :: "'f parent \<Rightarrow> 'f list \<Rightarrow> 'f parent" where
  "ApplyPerNodeFuncs original fns =
     (let adds = PerNodeAdds (WithName addsDirName (CopyFileInfo (Parent_Info original)))
                   original fns
      in PerNodeImpl original fns adds)"

text \<open>\<^verbatim>\<open>perNodeRecurse\<close>, lines 180 to 186.\<close>

fun perNodeRecurse :: "'f node \<Rightarrow> 'f list \<Rightarrow> 'f node" where
  "perNodeRecurse (ParentNode parent) fns = ParentNode (ApplyPerNodeFuncs parent fns)"
| "perNodeRecurse node fns = node"

text \<open>
  \<^verbatim>\<open>newAddsForChild\<close>, lines 147 to 178: the metadata of the per-entry directory, and
  the closure kept unevaluated in the node.
\<close>

definition newAddsForChild :: "'f list \<Rightarrow> 'f node \<Rightarrow> 'f parent" where
  "newAddsForChild fns original =
     (let originalInfo = Info original
      in AddsForChild
           (WithCacheableFor (CacheableFor original)
             (WithModePerm (Perm (Mode originalInfo) OR 73)
               (WithModTime (ModTime originalInfo)
                 (NewDirInfo (Name originalInfo)))))
           original fns)"

text \<open>
  The closure, lines 156 to 170. The Go map \<^verbatim>\<open>adds\<close> is an association list with
  distinct keys; \<^verbatim>\<open>adds[name] = add\<close> is \<^const>\<open>AList.update\<close>. What the closure
  does besides computing is recorded as a list of events: each call of \<^verbatim>\<open>Apply\<close> and
  each conflict message given to \<^verbatim>\<open>log.Error.Printf\<close> (with its two arguments).
\<close>

datatype 'f event =
    Apply 'f
  | LogError string string

fun addLoop :: "string \<Rightarrow> 'f node list \<Rightarrow> (string \<times> 'f node) list \<times> 'f event list
                \<Rightarrow> (string \<times> 'f node) list \<times> 'f event list" where
  "addLoop oname [] s = s"
| "addLoop oname (add # rest) (adds, tr) =
     (let nm = Name (Info add)
      in addLoop oname rest
           (AList.update nm add adds,
            if nm \<in> fst ` set adds then tr @ [LogError oname nm] else tr))"

fun fnLoop :: "('f \<Rightarrow> string) \<Rightarrow> ('c, 'f) applyFn \<Rightarrow> 'c \<Rightarrow> 'f node \<Rightarrow> 'f list
               \<Rightarrow> (string \<times> 'f node) list \<times> 'f event list
               \<Rightarrow> 'f event list \<times> (error + (string \<times> 'f node) list)" where
  "fnLoop fmtV ap ctx original [] (adds, tr) = (tr, Inr adds)"
| "fnLoop fmtV ap ctx original (fn # fns) (adds, tr) =
     (case ap ctx fn original of
        Inl err \<Rightarrow> (tr @ [Apply fn], Inl (ErrRunningFunc (fmtV fn) err))
      | Inr fnAdds \<Rightarrow>
          fnLoop fmtV ap ctx original fns
            (addLoop (Name (Info original)) fnAdds (adds, tr @ [Apply fn])))"

definition addsClosure :: "('f \<Rightarrow> string) \<Rightarrow> ('c, 'f) applyFn \<Rightarrow> 'c \<Rightarrow> 'f node \<Rightarrow> 'f list
               \<Rightarrow> 'f event list \<times> (error + (string \<times> 'f node) list)" where
  "addsClosure fmtV ap ctx original fns = fnLoop fmtV ap ctx original fns ([], [])"

text \<open>
  Lines 171 to 175 range over the Go map. Go leaves the iteration order of a map
  unspecified, so the loop may visit the entries in any order: \<open>range_orders adds\<close> lists
  every order, and \<open>wrappedSlices\<close> the slice \<^verbatim>\<open>wrapped\<close> built in each.
\<close>

primrec inserts :: "'a \<Rightarrow> 'a list \<Rightarrow> 'a list list" where
  "inserts x [] = [[x]]"
| "inserts x (y # ys) = (x # y # ys) # map ((#) y) (inserts x ys)"

primrec range_orders :: "'a list \<Rightarrow> 'a list list" where
  "range_orders [] = [[]]"
| "range_orders (x # xs) = concat (map (inserts x) (range_orders xs))"

definition wrappedSlices :: "'f list \<Rightarrow> (string \<times> 'f node) list \<Rightarrow> 'f node list list" where
  "wrappedSlices fns adds =
     map (map (\<lambda>(k, add). perNodeRecurse add fns)) (range_orders adds)"

text \<open>
  Modelled from the spec: iterators of package \<^verbatim>\<open>fsnode\<close>. An iteration is what a
  caller sees when draining the iterator: the nodes yielded and, if the iteration
  stopped on a failure, the error. \<^verbatim>\<open>NewIterator\<close> yields the given node,
  \<^verbatim>\<open>NewConcatIterator\<close> runs its arguments one after the other, \<^verbatim>\<open>MapIterator\<close>
  maps a function (one that does not fail, as both in \<^verbatim>\<open>per_node.go\<close>) over the nodes.
\<close>

type_synonym 'f iteration = "'f node list \<times> error option"

definition NewIterator :: "'f node \<Rightarrow> 'f iteration" where
  "NewIterator n = ([n], None)"

fun NewConcatIterator :: "'f iteration \<Rightarrow> 'f iteration \<Rightarrow> 'f iteration" where
  "NewConcatIterator (xs, None) (ys, e) = (xs @ ys, e)"
| "NewConcatIterator (xs, Some err) (ys, e) = (xs, Some err)"

definition MapIterator :: "'f iteration \<Rightarrow> ('f node \<Rightarrow> 'f node) \<Rightarrow> 'f iteration" where
  "MapIterator it g = (map g (fst it), snd it)"

text \<open>
  Modelled from the spec: lookup by name among a list of children, as done by a
  constant directory and by \<^verbatim>\<open>fsnode.FuncChildren\<close>: the first child of that name, or
  NotFound.
\<close>

definition lookupChild :: "'f node list \<Rightarrow> string \<Rightarrow> error + 'f node" where
  "lookupChild children nm =
     (case find (\<lambda>child. Name (Info child) = nm) children of
        None \<Rightarrow> Inl ErrNotExist
      | Some child \<Rightarrow> Inr child)"

text \<open>
  \<^verbatim>\<open>Child(ctx, name)\<close>: lines 97 to 106 for \<^verbatim>\<open>perNodeImpl\<close>, lines 132 to 138 for
  \<^verbatim>\<open>perNodeAdds\<close>. For the per-entry directory the closure is run and the child looked
  up among its results; their names are distinct, so the order of the slice does not
  matter (lemma \<open>lookupChild_wrappedSlices\<close>).
\<close>

fun Child :: "('f \<Rightarrow> string) \<Rightarrow> ('c, 'f) applyFn \<Rightarrow> 'c \<Rightarrow> 'f parent \<Rightarrow> string \<Rightarrow> error + 'f node" where
  "Child fmtV ap ctx (Dir info children) nm = lookupChild children nm"
| "Child fmtV ap ctx (PerNodeImpl Parent fns adds) nm =
     (if nm = addsDirName then Inr (ParentNode adds)
      else (case Child fmtV ap ctx Parent nm of
              Inl err \<Rightarrow> Inl err
            | Inr child \<Rightarrow> Inr (perNodeRecurse child fns)))"
| "Child fmtV ap ctx (PerNodeAdds FileInfo original fns) nm =
     (case Child fmtV ap ctx original nm of
        Inl err \<Rightarrow> Inl err
      | Inr child \<Rightarrow> Inr (ParentNode (newAddsForChild fns child)))"
| "Child fmtV ap ctx (AddsForChild info original fns) nm =
     (case snd (addsClosure fmtV ap ctx original fns) of
        Inl err \<Rightarrow> Inl err
      | Inr adds \<Rightarrow> lookupChild (map (\<lambda>(k, add). perNodeRecurse add fns) adds) nm)"

text \<open>
  \<^verbatim>\<open>Children()\<close>, drained: lines 107 to 116 for \<^verbatim>\<open>perNodeImpl\<close>, lines 139 to 144 for
  \<^verbatim>\<open>perNodeAdds\<close>. The result is the set of iterations a caller may see; it has more
  than one element only through the order of a Go map.
\<close>

fun Children :: "('f \<Rightarrow> string) \<Rightarrow> ('c, 'f) applyFn \<Rightarrow> 'c \<Rightarrow> 'f parent \<Rightarrow> 'f iteration set" where
  "Children fmtV ap ctx (Dir info children) = {(children, None)}"
| "Children fmtV ap ctx (PerNodeImpl Parent fns adds) =
     (\<lambda>it. NewConcatIterator
              (NewIterator (ParentNode adds))
              (MapIterator it (\<lambda>child. perNodeRecurse child fns)))
       ` Children fmtV ap ctx Parent"
| "Children fmtV ap ctx (PerNodeAdds FileInfo original fns) =
     (\<lambda>it. MapIterator it (\<lambda>child. ParentNode (newAddsForChild fns child)))
       ` Children fmtV ap ctx original"
| "Children fmtV ap ctx (AddsForChild info original fns) =
     (case snd (addsClosure fmtV ap ctx original fns) of
        Inl err \<Rightarrow> {([], Some err)}
      | Inr adds \<Rightarrow> (\<lambda>wrapped. (wrapped, None)) ` set (wrappedSlices fns adds))"

text \<open>
  Two notions used to state properties of the closure: the functions whose \<^verbatim>\<open>Apply\<close> was
  called, in the order of the calls, and the shape of the accumulated map (every key
  once, and each addition stored under its own name).
\<close>

definition appliedFns :: "'f event list \<Rightarrow> 'f list" where
  "appliedFns tr = concat (map (\<lambda>ev. case ev of Apply fn \<Rightarrow> [fn] | LogError a b \<Rightarrow> []) tr)"

definition keyed :: "(string \<times> 'f node) list \<Rightarrow> bool" where
  "keyed adds \<longleftrightarrow> distinct (map fst adds) \<and> (\<forall>(k, add) \<in> set adds. Name (Info add) = k)"

section \<open>Example inputs\<close>

text \<open>Concrete metadata, functions and directories used to evaluate the definitions.\<close>

definition exInfo :: "string \<Rightarrow> 32 word \<Rightarrow> fileinfo" where
  "exInfo n m = \<lparr>Name = n, Mode = m, ModTime = 0, cacheableFor = 0\<rparr>"

definition exFmt :: "nat \<Rightarrow> string" where
  "exFmt fn = (if fn = 7 \<or> fn = 8 then ''0x4a2b40'' else ''0x4a2b80'')"

definition noAdds :: "(unit, nat) applyFn" where
  "noAdds ctx fn n = Inr []"

definition exDir :: "nat parent" where
  "exDir = Dir (exInfo ''p'' 493)
             [Leaf (exInfo ''a'' 420), ParentNode (Dir (exInfo ''b'' 493) [])]"

definition exDirReserved :: "nat parent" where
  "exDirReserved = Dir (exInfo ''p'' 493) [Leaf (exInfo ''...'' 420)]"

definition exEntry :: "nat node" where
  "exEntry = Leaf (exInfo ''e'' 420)"

definition conflictAdds :: "(unit, nat) applyFn" where
  "conflictAdds ctx fn n =
     (if fn = 1 then Inr [Leaf (exInfo ''x'' 420)]
      else Inr [Leaf (exInfo ''x'' 384), Leaf (exInfo ''y'' 420)])"

definition failingFn :: "(unit, nat) applyFn" where
  "failingFn ctx fn n = (if fn = 7 \<or> fn = 8 then Inl (ErrOther ''boom'') else Inr [])"

definition twoAdds :: "(unit, nat) applyFn" where
  "twoAdds ctx fn n = Inr [Leaf (exInfo ''a'' 420), Leaf (exInfo ''b'' 420)]"

section \<open>Auxiliary facts\<close>

lemma perm_bits_replace:
  fixes x c d :: "32 word"
  shows "((x AND c) OR (d AND NOT c)) AND c = x AND c"
  by (rule bit_word_eqI) (auto simp add: bit_simps)

lemma perm_or_exec:
  fixes m :: "32 word"
  shows "((m AND 511) OR 73) AND 511 = (m AND 511) OR 73"
proof -
  have "(73 :: 32 word) AND 511 = 73" by simp
  then show ?thesis
    by (simp add: bit.conj_disj_distrib2 and.assoc)
qed

lemma exec_bits:
  fixes p :: "32 word"
  shows "(p OR 73) AND 73 = 73"
  by (simp add: bit.conj_disj_distrib2)

lemma Mode_newAddsForChild:
  "Mode (Parent_Info (newAddsForChild fns e)) =
     ((Perm (Mode (Info e)) OR 73) AND ModePerm) OR (ModeDir AND NOT ModePerm)"
  by (simp add: newAddsForChild_def Let_def WithCacheableFor_def WithModePerm_def
      WithModTime_def NewDirInfo_def)

lemma Perm_newAddsForChild:
  "Perm (Mode (Parent_Info (newAddsForChild fns e))) = Perm (Mode (Info e)) OR 73"
proof -
  have "Perm (Mode (Parent_Info (newAddsForChild fns e))) =
          (Perm (Mode (Info e)) OR 73) AND ModePerm"
    unfolding Mode_newAddsForChild Perm_def [of "_ OR _"] by (rule perm_bits_replace)
  also have "\<dots> = Perm (Mode (Info e)) OR 73"
    unfolding Perm_def ModePerm_def by (rule perm_or_exec)
  finally show ?thesis .
qed

text \<open>\<open>range_orders\<close> lists exactly the orders in which a map can be visited.\<close>

lemma inserts_mset: "zs \<in> set (inserts x ys) \<Longrightarrow> mset zs = add_mset x (mset ys)"
  by (induction ys arbitrary: zs) auto

lemma range_orders_mset: "ys \<in> set (range_orders xs) \<Longrightarrow> mset ys = mset xs"
  by (induction xs arbitrary: ys) (auto dest: inserts_mset)

lemma inserts_mid: "as @ x # bs \<in> set (inserts x (as @ bs))"
  by (induction as) (auto, (cases bs; simp))

lemma range_orders_complete: "mset ys = mset xs \<Longrightarrow> ys \<in> set (range_orders xs)"
proof (induction xs arbitrary: ys)
  case Nil
  then show ?case by simp
next
  case (Cons x xs)
  then have "x \<in> set ys"
    by (metis list.set_intros(1) mset_eq_setD)
  then obtain as bs where ys: "ys = as @ x # bs"
    by (auto dest: split_list)
  with Cons.prems have "mset (as @ bs) = mset xs" by simp
  then have "as @ bs \<in> set (range_orders xs)" by (rule Cons.IH)
  with inserts_mid [of as x bs] show ?case
    unfolding ys by auto
qed

lemma range_orders_self: "xs \<in> set (range_orders xs)"
  by (rule range_orders_complete) simp

lemma Info_perNodeRecurse: "Info (perNodeRecurse n fns) = Info n"
  by (cases n) (simp_all add: ApplyPerNodeFuncs_def)

lemma range_orders_nonempty: "range_orders xs \<noteq> []"
  using range_orders_self [of xs] by auto

lemma Children_nonempty: "Children fmtV ap ctx P \<noteq> {}"
proof (induction fmtV ap ctx P rule: Children.induct)
  case (4 fmtV ap ctx info original fns)
  show ?case
    by (simp add: wrappedSlices_def range_orders_nonempty split: sum.splits)
qed simp_all

lemma concat_map_iteration:
  "NewConcatIterator (NewIterator n) (MapIterator it g) = (n # map g (fst it), snd it)"
  by (cases it) (simp add: NewIterator_def MapIterator_def)

lemma lookupChild_listed:
  assumes "distinct (map (\<lambda>c. Name (Info c)) children)" and "e \<in> set children"
  shows "lookupChild children (Name (Info e)) = Inr e"
  using assms by (induction children) (auto simp: lookupChild_def)

lemma lookupChild_absent:
  assumes "nm \<notin> (\<lambda>c. Name (Info c)) ` set children"
  shows "lookupChild children nm = Inl ErrNotExist"
  using assms by (induction children) (auto simp: lookupChild_def)

lemma size_wrap: "size (ApplyPerNodeFuncs P F) > size P"
  by (simp add: ApplyPerNodeFuncs_def)

lemma wrap_neq: "ApplyPerNodeFuncs P F \<noteq> P"
  using size_wrap [of P F] by auto

text \<open>The accumulator of the closure.\<close>

lemma appliedFns_append [simp]: "appliedFns (xs @ ys) = appliedFns xs @ appliedFns ys"
  by (simp add: appliedFns_def)

lemma appliedFns_simps [simp]:
  "appliedFns [] = []" "appliedFns [Apply fn] = [fn]" "appliedFns [LogError a b] = []"
  by (simp_all add: appliedFns_def)

lemma update_member:
  "(a, b) \<in> set (AList.update k v al) \<Longrightarrow> (a, b) = (k, v) \<or> (a, b) \<in> set al"
  by (induction al) (auto split: if_splits)

lemma keyed_update: "keyed adds \<Longrightarrow> keyed (AList.update (Name (Info add)) add adds)"
  unfolding keyed_def
  by (auto simp: distinct_update dest!: update_member)

lemma addLoop_keyed: "keyed adds \<Longrightarrow> keyed (fst (addLoop oname as (adds, tr)))"
  by (induction as arbitrary: adds tr) (simp_all add: Let_def keyed_update)

lemma addLoop_applied: "appliedFns (snd (addLoop oname as (adds, tr))) = appliedFns tr"
  by (induction as arbitrary: adds tr) (simp_all add: Let_def)

lemma addLoop_trace_mono: "set tr \<subseteq> set (snd (addLoop oname as (adds, tr)))"
proof (induction as arbitrary: adds tr)
  case (Cons a as)
  let ?tr' = "if Name (Info a) \<in> fst ` set adds
              then tr @ [LogError oname (Name (Info a))] else tr"
  have "set tr \<subseteq> set ?tr'" by auto
  also have "\<dots> \<subseteq> set (snd (addLoop oname as (AList.update (Name (Info a)) a adds, ?tr')))"
    by (rule Cons)
  finally show ?case by (simp add: Let_def)
qed simp

lemma addLoop_map_of:
  "map_of (fst (addLoop oname as (adds, tr))) x =
     (case filter (\<lambda>a. Name (Info a) = x) as of
        [] \<Rightarrow> map_of adds x
      | _ \<Rightarrow> Some (last (filter (\<lambda>a. Name (Info a) = x) as)))"
proof (induction as arbitrary: adds tr)
  case Nil
  show ?case by simp
next
  case (Cons a as)
  show ?case
    by (simp add: Let_def Cons update_conv split: list.splits)
qed

lemma addLoop_conflict:
  assumes "x \<in> fst ` set adds" and "\<exists>a \<in> set as. Name (Info a) = x"
  shows "LogError oname x \<in> set (snd (addLoop oname as (adds, tr)))"
  using assms
proof (induction as arbitrary: adds tr)
  case Nil
  then show ?case by simp
next
  case (Cons a as)
  show ?case
  proof (cases "Name (Info a) = x")
    case True
    with Cons.prems(1) show ?thesis
      using addLoop_trace_mono [of "tr @ [LogError oname x]" oname as "AList.update x a adds"]
      by (auto simp: Let_def)
  next
    case False
    with Cons.prems have "\<exists>a \<in> set as. Name (Info a) = x" by auto
    moreover have "x \<in> fst ` set (AList.update (Name (Info a)) a adds)"
      using Cons.prems(1) by (simp add: dom_update)
    ultimately show ?thesis
      using Cons.IH by (simp add: Let_def)
  qed
qed

lemma fnLoop_keyed:
  "keyed adds \<Longrightarrow> snd (fnLoop fmtV ap ctx e fns (adds, tr)) = Inr adds' \<Longrightarrow> keyed adds'"
proof (induction fns arbitrary: adds tr)
  case Nil
  then show ?case by simp
next
  case (Cons fn fns)
  show ?case
  proof (cases "ap ctx fn e")
    case (Inl err)
    with Cons.prems show ?thesis by simp
  next
    case (Inr fnAdds)
    obtain adds1 tr1 where s: "addLoop (Name (Info e)) fnAdds (adds, tr @ [Apply fn]) = (adds1, tr1)"
      by (cases "addLoop (Name (Info e)) fnAdds (adds, tr @ [Apply fn])")
    have "keyed adds1"
      using addLoop_keyed [OF Cons.prems(1), of "Name (Info e)" fnAdds "tr @ [Apply fn]"] s by simp
    moreover have "snd (fnLoop fmtV ap ctx e fns (adds1, tr1)) = Inr adds'"
      using Cons.prems(2) Inr s by simp
    ultimately show ?thesis by (rule Cons.IH)
  qed
qed

lemma keyed_Nil: "keyed []"
  by (simp add: keyed_def)

lemma addsClosure_keyed: "snd (addsClosure fmtV ap ctx e fns) = Inr adds \<Longrightarrow> keyed adds"
  unfolding addsClosure_def by (rule fnLoop_keyed [OF keyed_Nil])

lemma keyed_filter:
  "distinct (map fst kvs) \<Longrightarrow>
   filter (\<lambda>kv. fst kv = x) kvs = (case map_of kvs x of None \<Rightarrow> [] | Some v \<Rightarrow> [(x, v)])"
proof (induction kvs)
  case Nil
  show ?case by simp
next
  case (Cons kv kvs)
  then show ?case
    by (cases kv) (auto simp: filter_empty_conv map_of_eq_None_iff image_iff split: option.splits)
qed

lemma filter_wrapped:
  "\<forall>(k, add) \<in> set kvs. Name (Info add) = k \<Longrightarrow>
   filter (\<lambda>c. Name (Info c) = x) (map (\<lambda>(k, add). perNodeRecurse add fns) kvs) =
     map (\<lambda>(k, add). perNodeRecurse add fns) (filter (\<lambda>kv. fst kv = x) kvs)"
  by (induction kvs) (auto simp: Info_perNodeRecurse)

lemma wrappedSlices_self:
  "map (\<lambda>(k, add). perNodeRecurse add fns) adds \<in> set (wrappedSlices fns adds)"
  by (auto simp: wrappedSlices_def intro!: imageI range_orders_self)

lemma wrappedSlices_filter:
  assumes "keyed adds" and "ws \<in> set (wrappedSlices fns adds)"
  shows "filter (\<lambda>c. Name (Info c) = x) ws =
           (case map_of adds x of None \<Rightarrow> [] | Some add \<Rightarrow> [perNodeRecurse add fns])"
proof -
  from assms(2) obtain kvs where kvs: "kvs \<in> set (range_orders adds)"
    and ws: "ws = map (\<lambda>(k, add). perNodeRecurse add fns) kvs"
    by (auto simp: wrappedSlices_def)
  from kvs have m: "mset kvs = mset adds" by (rule range_orders_mset)
  then have set_eq: "set kvs = set adds" by (rule mset_eq_setD)
  from m have "mset (map fst kvs) = mset (map fst adds)" by simp
  with assms(1) have d: "distinct (map fst kvs)"
    by (metis keyed_def mset_eq_imp_distinct_iff)
  have "map_of kvs = map_of adds"
    using d assms(1) set_eq by (simp add: keyed_def map_of_inject_set)
  have "filter (\<lambda>c. Name (Info c) = x) ws =
          map (\<lambda>(k, add). perNodeRecurse add fns) (filter (\<lambda>kv. fst kv = x) kvs)"
    unfolding ws using assms(1) set_eq by (intro filter_wrapped) (simp add: keyed_def)
  also have "\<dots> = (case map_of adds x of None \<Rightarrow> [] | Some add \<Rightarrow> [perNodeRecurse add fns])"
    using \<open>map_of kvs = map_of adds\<close> by (simp add: keyed_filter [OF d] split: option.splits)
  finally show ?thesis .
qed

lemma find_filter_conv: "find P xs = (case filter P xs of [] \<Rightarrow> None | x # _ \<Rightarrow> Some x)"
  by (induction xs) auto

lemma lookupChild_wrappedSlices:
  assumes "keyed adds" and "ws \<in> set (wrappedSlices fns adds)"
  shows "lookupChild ws nm = lookupChild (map (\<lambda>(k, add). perNodeRecurse add fns) adds) nm"
proof -
  from wrappedSlices_filter [OF assms(1) wrappedSlices_self] wrappedSlices_filter [OF assms]
  show ?thesis
    by (simp add: lookupChild_def find_filter_conv)
qed

lemma Children_newAddsForChild:
  "Children fmtV ap ctx (newAddsForChild fns e) =
     (case snd (addsClosure fmtV ap ctx e fns) of
        Inl err \<Rightarrow> {([], Some err)}
      | Inr adds \<Rightarrow> (\<lambda>wrapped. (wrapped, None)) ` set (wrappedSlices fns adds))"
  by (simp add: newAddsForChild_def Let_def)

lemma Child_newAddsForChild:
  "Child fmtV ap ctx (newAddsForChild fns e) nm =
     (case snd (addsClosure fmtV ap ctx e fns) of
        Inl err \<Rightarrow> Inl err
      | Inr adds \<Rightarrow> lookupChild (map (\<lambda>(k, add). perNodeRecurse add fns) adds) nm)"
  by (simp add: newAddsForChild_def Let_def)

lemma fnLoop_fail:
  assumes "\<forall>g \<in> set pre. \<exists>as. ap ctx g e = Inr as" and "ap ctx f e = Inl err"
  shows "snd (fnLoop fmtV ap ctx e (pre @ f # suf) (adds, tr)) = Inl (ErrRunningFunc (fmtV f) err) \<and>
         appliedFns (fst (fnLoop fmtV ap ctx e (pre @ f # suf) (adds, tr))) = appliedFns tr @ pre @ [f]"
  using assms(1)
proof (induction pre arbitrary: adds tr)
  case Nil
  show ?case by (simp add: assms(2))
next
  case (Cons g pre)
  then obtain as where g: "ap ctx g e = Inr as" by auto
  obtain adds1 tr1 where s: "addLoop (Name (Info e)) as (adds, tr @ [Apply g]) = (adds1, tr1)"
    by (cases "addLoop (Name (Info e)) as (adds, tr @ [Apply g])")
  have tr1: "appliedFns tr1 = appliedFns tr @ [g]"
    using addLoop_applied [of "Name (Info e)" as adds "tr @ [Apply g]"] by (simp add: s)
  from Cons.prems have "\<forall>g \<in> set pre. \<exists>as. ap ctx g e = Inr as" by simp
  from Cons.IH [OF this, of adds1 tr1] show ?case
    by (simp add: g s tr1)
qed

lemma fnLoop_applied_prefix:
  "\<exists>n. appliedFns (fst (fnLoop fmtV ap ctx e fns (adds, tr))) = appliedFns tr @ take n fns"
proof (induction fns arbitrary: adds tr)
  case Nil
  show ?case by simp
next
  case (Cons g fns)
  show ?case
  proof (cases "ap ctx g e")
    case (Inl err)
    have "appliedFns (fst (fnLoop fmtV ap ctx e (g # fns) (adds, tr))) = appliedFns tr @ take 1 (g # fns)"
      by (simp add: Inl)
    then show ?thesis ..
  next
    case (Inr as)
    obtain adds1 tr1 where s: "addLoop (Name (Info e)) as (adds, tr @ [Apply g]) = (adds1, tr1)"
      by (cases "addLoop (Name (Info e)) as (adds, tr @ [Apply g])")
    have tr1: "appliedFns tr1 = appliedFns tr @ [g]"
      using addLoop_applied [of "Name (Info e)" as adds "tr @ [Apply g]"] by (simp add: s)
    from Cons.IH [of adds1 tr1] obtain n
      where "appliedFns (fst (fnLoop fmtV ap ctx e fns (adds1, tr1))) = appliedFns tr1 @ take n fns" ..
    then have "appliedFns (fst (fnLoop fmtV ap ctx e (g # fns) (adds, tr))) =
                 appliedFns tr @ take (Suc n) (g # fns)"
      by (simp add: Inr s tr1)
    then show ?thesis ..
  qed
qed

lemma wrappedSlices_mset:
  "ws \<in> set (wrappedSlices fns adds) \<Longrightarrow>
   mset ws = mset (map (\<lambda>(k, add). perNodeRecurse add fns) adds)"
  by (auto simp: wrappedSlices_def dest!: range_orders_mset)

lemma wrapped_names:
  "\<forall>(k, add) \<in> set kvs. Name (Info add) = k \<Longrightarrow>
   map (\<lambda>c. Name (Info c)) (map (\<lambda>(k, add). perNodeRecurse add fns) kvs) = map fst kvs"
  by (induction kvs) (auto simp: Info_perNodeRecurse)

lemma wrappedSlices_distinct:
  assumes "keyed adds" and "ws \<in> set (wrappedSlices fns adds)"
  shows "distinct (map (\<lambda>c. Name (Info c)) ws)"
proof -
  from assms(2) have "mset ws = mset (map (\<lambda>(k, add). perNodeRecurse add fns) adds)"
    by (rule wrappedSlices_mset)
  then have "mset (map (\<lambda>c. Name (Info c)) ws) =
             mset (map (\<lambda>c. Name (Info c)) (map (\<lambda>(k, add). perNodeRecurse add fns) adds))"
    by (metis mset_map)
  also have "\<dots> = mset (map fst adds)"
  proof -
    have "\<forall>(k, add) \<in> set adds. Name (Info add) = k"
      using assms(1) by (simp add: keyed_def)
    then show ?thesis by (simp only: wrapped_names)
  qed
  finally show ?thesis
    using assms(1) by (metis keyed_def mset_eq_imp_distinct_iff)
qed

section \<open>The overlay wrapper\<close>

text \<open>
  C1. For every directory, function list and context, looking up the reserved name
  \<^verbatim>\<open>"..."\<close> in the wrapper succeeds with the additions directory built for that
  directory and function list; the result does not depend on the directory's own lookup.
\<close>

theorem Child_reserved:
  "Child fmtV ap ctx (ApplyPerNodeFuncs P F) addsDirName =
     Inr (ParentNode
            (PerNodeAdds (WithName addsDirName (CopyFileInfo (Parent_Info P))) P F))"
  by (simp add: ApplyPerNodeFuncs_def)

text \<open>
  C2. For a name other than the reserved one, the wrapper's lookup is the directory's own
  lookup followed by the recursion driver: an entry with the Parent capability comes back
  wrapped with the same function list, a leaf comes back unchanged, and a failure of the
  directory's lookup (NotFound when it has no entry of that name) comes back unchanged.
  For a constant directory with distinct names, the entry found under an entry's name is
  that entry (lemma \<open>lookupChild_listed\<close>).
\<close>

theorem Child_nonreserved:
  assumes "nm \<noteq> addsDirName"
  shows "Child fmtV ap ctx (ApplyPerNodeFuncs P F) nm =
           (case Child fmtV ap ctx P nm of
              Inl err \<Rightarrow> Inl err
            | Inr (Leaf info) \<Rightarrow> Inr (Leaf info)
            | Inr (ParentNode e) \<Rightarrow> Inr (ParentNode (ApplyPerNodeFuncs e F)))"
  using assms by (simp add: ApplyPerNodeFuncs_def [of P] split: sum.splits node.splits)

theorem Child_nonreserved_witness:
  "''a'' \<noteq> addsDirName \<and> ''b'' \<noteq> addsDirName \<and> ''c'' \<noteq> addsDirName \<and>
   Child exFmt noAdds () (ApplyPerNodeFuncs exDir [0]) ''a'' = Inr (Leaf (exInfo ''a'' 420)) \<and>
   Child exFmt noAdds () (ApplyPerNodeFuncs exDir [0]) ''b'' =
     Inr (ParentNode (ApplyPerNodeFuncs (Dir (exInfo ''b'' 493) []) [0])) \<and>
   Child exFmt noAdds () (ApplyPerNodeFuncs exDir [0]) ''c'' = Inl ErrNotExist"
proof -
  have a: "''a'' \<noteq> addsDirName" and b: "''b'' \<noteq> addsDirName" and c: "''c'' \<noteq> addsDirName"
    by (simp_all add: addsDirName_def)
  have "Child exFmt noAdds () exDir ''a'' = Inr (Leaf (exInfo ''a'' 420))"
    and "Child exFmt noAdds () exDir ''b'' = Inr (ParentNode (Dir (exInfo ''b'' 493) []))"
    and "Child exFmt noAdds () exDir ''c'' = Inl ErrNotExist"
    by (simp_all add: exDir_def lookupChild_def exInfo_def)
  with a b c show ?thesis
    using Child_nonreserved [OF a, of exFmt noAdds "()" exDir "[0]"]
      Child_nonreserved [OF b, of exFmt noAdds "()" exDir "[0]"]
      Child_nonreserved [OF c, of exFmt noAdds "()" exDir "[0]"]
    by simp
qed

text \<open>
  C3. The child sequence of the wrapper is the additions directory followed by the
  directory's own child sequence in which every leaf is kept as it is and every directory
  is replaced by its wrapper for the same function list (that is what the recursion driver
  does to a node); a failure that ends the directory's own sequence ends the wrapper's.
  A listing exists.
\<close>

theorem Children_wrapper:
  "Children fmtV ap ctx (ApplyPerNodeFuncs P F) =
     (\<lambda>(cs, e). (ParentNode (PerNodeAdds (WithName addsDirName (CopyFileInfo (Parent_Info P))) P F)
                   # map (\<lambda>child. case child of
                                     Leaf info \<Rightarrow> Leaf info
                                   | ParentNode p \<Rightarrow> ParentNode (ApplyPerNodeFuncs p F)) cs, e))
       ` Children fmtV ap ctx P \<and>
   Children fmtV ap ctx (ApplyPerNodeFuncs P F) =
     (\<lambda>(cs, e). (ParentNode (PerNodeAdds (WithName addsDirName (CopyFileInfo (Parent_Info P))) P F)
                   # map (\<lambda>child. perNodeRecurse child F) cs, e))
       ` Children fmtV ap ctx P \<and>
   perNodeRecurse (Leaf info) F = Leaf info \<and>
   perNodeRecurse (ParentNode p) F =
     ParentNode (PerNodeImpl p F
                   (PerNodeAdds (WithName addsDirName (CopyFileInfo (Parent_Info p))) p F)) \<and>
   Children fmtV ap ctx (ApplyPerNodeFuncs P F) \<noteq> {}"
proof -
  have rec: "(\<lambda>child. perNodeRecurse child F) =
             (\<lambda>child. case child of
                         Leaf info \<Rightarrow> Leaf info
                       | ParentNode p \<Rightarrow> ParentNode (ApplyPerNodeFuncs p F))"
    by (rule ext) (simp split: node.splits)
  have listing: "Children fmtV ap ctx (ApplyPerNodeFuncs P F) =
     (\<lambda>(cs, e). (ParentNode (PerNodeAdds (WithName addsDirName (CopyFileInfo (Parent_Info P))) P F)
                   # map (\<lambda>child. perNodeRecurse child F) cs, e))
       ` Children fmtV ap ctx P"
    by (simp add: ApplyPerNodeFuncs_def concat_map_iteration case_prod_beta)
  have "perNodeRecurse (ParentNode p) F =
     ParentNode (PerNodeImpl p F
                   (PerNodeAdds (WithName addsDirName (CopyFileInfo (Parent_Info p))) p F))"
    by (simp add: ApplyPerNodeFuncs_def)
  moreover have "perNodeRecurse (Leaf info) F = Leaf info"
    by simp
  moreover have "Children fmtV ap ctx (ApplyPerNodeFuncs P F) \<noteq> {}"
    by (rule Children_nonempty)
  moreover note listing listing [unfolded rec]
  ultimately show ?thesis by blast
qed

theorem Children_wrapper_witness:
  "Children exFmt noAdds () (ApplyPerNodeFuncs exDir [0]) =
     {([ParentNode (PerNodeAdds (exInfo ''...'' 493) exDir [0]),
        Leaf (exInfo ''a'' 420),
        ParentNode
          (PerNodeImpl (Dir (exInfo ''b'' 493) []) [0]
             (PerNodeAdds (exInfo ''...'' 493) (Dir (exInfo ''b'' 493) []) [0]))],
       None)}"
proof -
  have orig: "Children exFmt noAdds () exDir =
          {([Leaf (exInfo ''a'' 420), ParentNode (Dir (exInfo ''b'' 493) [])], None)}"
    by (simp add: exDir_def)
  have adds: "WithName addsDirName (CopyFileInfo (Parent_Info exDir)) = exInfo ''...'' 493"
    and adds': "WithName addsDirName (CopyFileInfo (exInfo ''b'' 493)) = exInfo ''...'' 493"
    by (simp_all add: exDir_def exInfo_def WithName_def CopyFileInfo_def addsDirName_def)
  from Children_wrapper [of exFmt noAdds "()" exDir "[0]"]
  have "Children exFmt noAdds () (ApplyPerNodeFuncs exDir [0]) =
     (\<lambda>(cs, e). (ParentNode (PerNodeAdds (WithName addsDirName (CopyFileInfo (Parent_Info exDir)))
                     exDir [0])
                   # map (\<lambda>child. case child of
                                     Leaf info \<Rightarrow> Leaf info
                                   | ParentNode p \<Rightarrow> ParentNode (ApplyPerNodeFuncs p [0])) cs, e))
       ` Children exFmt noAdds () exDir"
    by blast
  then show ?thesis
    unfolding orig adds by (simp add: ApplyPerNodeFuncs_def adds')
qed

text \<open>
  C10. The wrapper's own metadata (name, mode with its permission bits, modification
  time) and its cache-validity duration are those of the wrapped directory.
\<close>

theorem wrapper_metadata:
  "Parent_Info (ApplyPerNodeFuncs P F) = Parent_Info P \<and>
   Name (Parent_Info (ApplyPerNodeFuncs P F)) = Name (Parent_Info P) \<and>
   Perm (Mode (Parent_Info (ApplyPerNodeFuncs P F))) = Perm (Mode (Parent_Info P)) \<and>
   ModTime (Parent_Info (ApplyPerNodeFuncs P F)) = ModTime (Parent_Info P) \<and>
   Parent_CacheableFor (ApplyPerNodeFuncs P F) = Parent_CacheableFor P"
  by (simp add: ApplyPerNodeFuncs_def)

text \<open>
  C9. Wrapping twice is not wrapping once. The listing of the doubly wrapped directory
  starts with two different directories named \<^verbatim>\<open>"..."\<close>: the additions directory of the
  outer wrapper, and the additions directory of the inner wrapper (wrapped in turn by the
  recursion driver). Lookup of the reserved name gives the outer one, which differs from
  the one the inner wrapper gives.
\<close>

theorem double_wrap:
  fixes P :: "'f parent" and F :: "'f list" and ap :: "('c, 'f) applyFn"
  defines "inner \<equiv> ApplyPerNodeFuncs P F"
  defines "outer \<equiv> ApplyPerNodeFuncs inner F"
  defines "addsInner \<equiv> PerNodeAdds (WithName addsDirName (CopyFileInfo (Parent_Info P))) P F"
  defines "addsOuter \<equiv> PerNodeAdds (WithName addsDirName (CopyFileInfo (Parent_Info inner))) inner F"
  shows "Children fmtV ap ctx outer =
           (\<lambda>(cs, e). (ParentNode addsOuter # ParentNode (ApplyPerNodeFuncs addsInner F)
                         # map (\<lambda>child. perNodeRecurse (perNodeRecurse child F) F) cs, e))
             ` Children fmtV ap ctx P \<and>
         Children fmtV ap ctx outer \<noteq> {} \<and>
         Name (Parent_Info addsOuter) = addsDirName \<and>
         Name (Parent_Info (ApplyPerNodeFuncs addsInner F)) = addsDirName \<and>
         addsOuter \<noteq> ApplyPerNodeFuncs addsInner F \<and>
         Child fmtV ap ctx outer addsDirName = Inr (ParentNode addsOuter) \<and>
         Child fmtV ap ctx inner addsDirName = Inr (ParentNode addsInner) \<and>
         addsOuter \<noteq> addsInner \<and>
         outer \<noteq> inner"
proof -
  have "Children fmtV ap ctx outer =
           (\<lambda>(cs, e). (ParentNode addsOuter # ParentNode (ApplyPerNodeFuncs addsInner F)
                         # map (\<lambda>child. perNodeRecurse (perNodeRecurse child F) F) cs, e))
             ` Children fmtV ap ctx P"
    unfolding outer_def inner_def addsOuter_def addsInner_def
    by (simp add: ApplyPerNodeFuncs_def concat_map_iteration case_prod_beta image_image comp_def)
  moreover have "Children fmtV ap ctx outer \<noteq> {}" by (rule Children_nonempty)
  moreover have "Name (Parent_Info addsOuter) = addsDirName"
    by (simp add: addsOuter_def WithName_def)
  moreover have "Name (Parent_Info (ApplyPerNodeFuncs addsInner F)) = addsDirName"
    by (simp add: addsInner_def ApplyPerNodeFuncs_def WithName_def)
  moreover have "addsOuter \<noteq> ApplyPerNodeFuncs addsInner F"
    by (simp add: addsOuter_def ApplyPerNodeFuncs_def)
  moreover have "Child fmtV ap ctx outer addsDirName = Inr (ParentNode addsOuter)"
    by (simp add: outer_def addsOuter_def ApplyPerNodeFuncs_def [of inner])
  moreover have "Child fmtV ap ctx inner addsDirName = Inr (ParentNode addsInner)"
    by (simp add: inner_def addsInner_def ApplyPerNodeFuncs_def [of P])
  moreover have "addsOuter \<noteq> addsInner"
    using wrap_neq [of P F] by (simp add: addsOuter_def addsInner_def inner_def)
  moreover have "outer \<noteq> inner"
    unfolding outer_def by (rule wrap_neq)
  ultimately show ?thesis by blast
qed

text \<open>
  C6. The claim: a child exposed under the reserved name is always the additions
  directory. Evaluated on a directory that has an entry named \<^verbatim>\<open>"..."\<close>: the wrapper's
  listing has two children of that name, the additions directory and the original entry.
\<close>

theorem Children_lists_original_reserved:
  "Children exFmt noAdds () (ApplyPerNodeFuncs exDirReserved []) =
     {([ParentNode (PerNodeAdds (exInfo ''...'' 493) exDirReserved []),
        Leaf (exInfo ''...'' 420)], None)} \<and>
   Name (Info (Leaf (exInfo ''...'' 420) :: nat node)) = addsDirName \<and>
   Child exFmt noAdds () exDirReserved addsDirName = Inr (Leaf (exInfo ''...'' 420))"
  by (simp add: ApplyPerNodeFuncs_def exDirReserved_def concat_map_iteration exInfo_def
      WithName_def CopyFileInfo_def addsDirName_def lookupChild_def)


section \<open>The per-entry additions directory\<close>

text \<open>
  C7. The per-entry additions directory of an entry carries the entry's name, the entry's
  modification time, the entry's permission bits with the three execute bits (octal 0111)
  forced on, and the entry's cache-validity duration.
\<close>

theorem newAddsForChild_metadata:
  "Name (Parent_Info (newAddsForChild fns e)) = Name (Info e) \<and>
   ModTime (Parent_Info (newAddsForChild fns e)) = ModTime (Info e) \<and>
   Perm (Mode (Parent_Info (newAddsForChild fns e))) = Perm (Mode (Info e)) OR 73 \<and>
   Perm (Mode (Parent_Info (newAddsForChild fns e))) AND 73 = 73 \<and>
   Parent_CacheableFor (newAddsForChild fns e) = CacheableFor e"
proof -
  have "Name (Parent_Info (newAddsForChild fns e)) = Name (Info e)"
    and "ModTime (Parent_Info (newAddsForChild fns e)) = ModTime (Info e)"
    and "Parent_CacheableFor (newAddsForChild fns e) = CacheableFor e"
    by (simp_all add: newAddsForChild_def Let_def WithCacheableFor_def WithModePerm_def
        WithModTime_def NewDirInfo_def)
  moreover have "Perm (Mode (Parent_Info (newAddsForChild fns e))) AND 73 = 73"
    unfolding Perm_newAddsForChild by (rule exec_bits)
  ultimately show ?thesis
    using Perm_newAddsForChild [of fns e] by simp
qed

text \<open>
  C4. Let the function list be \<open>[F1, F2]\<close>, both functions succeed on the entry, and both
  return an addition named \<open>x\<close>. Then every listing of the entry's additions directory
  succeeds and has exactly one child named \<open>x\<close>: the last addition of that name returned
  by \<open>F2\<close>, passed through the recursion driver like every addition (so it is that
  addition itself when it is a leaf, and that addition wrapped when it is a directory; the
  metadata is the addition's either way). A listing exists, lookup of \<open>x\<close> gives the same
  child, and the conflict has been reported to the log, not as an error.
\<close>

theorem conflict_later_wins:
  assumes F1: "ap ctx F1 e = Inr as1" and F2: "ap ctx F2 e = Inr as2"
    and x1: "\<exists>a \<in> set as1. Name (Info a) = x" and x2: "\<exists>a \<in> set as2. Name (Info a) = x"
  shows "(\<forall>r \<in> Children fmtV ap ctx (newAddsForChild [F1, F2] e).
            snd r = None \<and>
            filter (\<lambda>c. Name (Info c) = x) (fst r) =
              [perNodeRecurse (last (filter (\<lambda>a. Name (Info a) = x) as2)) [F1, F2]]) \<and>
         Children fmtV ap ctx (newAddsForChild [F1, F2] e) \<noteq> {} \<and>
         Child fmtV ap ctx (newAddsForChild [F1, F2] e) x =
           Inr (perNodeRecurse (last (filter (\<lambda>a. Name (Info a) = x) as2)) [F1, F2]) \<and>
         last (filter (\<lambda>a. Name (Info a) = x) as2) \<in> set as2 \<and>
         perNodeRecurse (last (filter (\<lambda>a. Name (Info a) = x) as2)) [F1, F2] =
           (case last (filter (\<lambda>a. Name (Info a) = x) as2) of
              Leaf info \<Rightarrow> Leaf info
            | ParentNode p \<Rightarrow> ParentNode (ApplyPerNodeFuncs p [F1, F2])) \<and>
         Info (perNodeRecurse (last (filter (\<lambda>a. Name (Info a) = x) as2)) [F1, F2]) =
           Info (last (filter (\<lambda>a. Name (Info a) = x) as2)) \<and>
         LogError (Name (Info e)) x \<in> set (fst (addsClosure fmtV ap ctx e [F1, F2]))"
proof -
  let ?on = "Name (Info e)"
  let ?a2 = "last (filter (\<lambda>a. Name (Info a) = x) as2)"
  obtain a1 t1 where s1: "addLoop ?on as1 ([], [Apply F1]) = (a1, t1)"
    by (cases "addLoop ?on as1 ([], [Apply F1])")
  obtain a2 t2 where s2: "addLoop ?on as2 (a1, t1 @ [Apply F2]) = (a2, t2)"
    by (cases "addLoop ?on as2 (a1, t1 @ [Apply F2])")
  have closure: "addsClosure fmtV ap ctx e [F1, F2] = (t2, Inr a2)"
    by (simp add: addsClosure_def F1 F2 s1 s2)
  have ne1: "filter (\<lambda>a. Name (Info a) = x) as1 \<noteq> []"
    and ne2: "filter (\<lambda>a. Name (Info a) = x) as2 \<noteq> []"
    using x1 x2 by (auto simp: filter_empty_conv)
  have "map_of a1 x \<noteq> None"
    using addLoop_map_of [of ?on as1 "[]" "[Apply F1]" x] ne1
    by (simp add: s1 split: list.splits)
  then have "x \<in> fst ` set a1"
    by (simp add: map_of_eq_None_iff)
  then have log: "LogError ?on x \<in> set t2"
    using addLoop_conflict [OF _ x2, of a1 ?on "t1 @ [Apply F2]"] by (simp add: s2)
  have m2: "map_of a2 x = Some ?a2"
    using addLoop_map_of [of ?on as2 a1 "t1 @ [Apply F2]" x] ne2
    by (simp add: s2 split: list.splits)
  have k: "keyed a2"
    using addsClosure_keyed [of fmtV ap ctx e "[F1, F2]" a2] by (simp add: closure)
  have "?a2 \<in> set (filter (\<lambda>a. Name (Info a) = x) as2)"
    using ne2 by (rule last_in_set)
  then have mem: "?a2 \<in> set as2" by simp
  have all: "\<forall>r \<in> Children fmtV ap ctx (newAddsForChild [F1, F2] e).
            snd r = None \<and>
            filter (\<lambda>c. Name (Info c) = x) (fst r) = [perNodeRecurse ?a2 [F1, F2]]"
    using wrappedSlices_filter [OF k, where fns = "[F1, F2]" and x = x]
    by (auto simp: Children_newAddsForChild closure m2)
  have child: "Child fmtV ap ctx (newAddsForChild [F1, F2] e) x = Inr (perNodeRecurse ?a2 [F1, F2])"
    using wrappedSlices_filter [OF k wrappedSlices_self, where fns = "[F1, F2]" and x = x]
    by (simp add: Child_newAddsForChild closure lookupChild_def find_filter_conv m2)
  have rec: "perNodeRecurse ?a2 [F1, F2] =
           (case ?a2 of
              Leaf info \<Rightarrow> Leaf info
            | ParentNode p \<Rightarrow> ParentNode (ApplyPerNodeFuncs p [F1, F2]))"
    by (simp split: node.splits)
  have info: "Info (perNodeRecurse ?a2 [F1, F2]) = Info ?a2"
    by (rule Info_perNodeRecurse)
  have ex: "Children fmtV ap ctx (newAddsForChild [F1, F2] e) \<noteq> {}"
    by (rule Children_nonempty)
  from log have log': "LogError ?on x \<in> set (fst (addsClosure fmtV ap ctx e [F1, F2]))"
    by (simp add: closure)
  show ?thesis
    by (intro conjI) (rule all ex child mem rec info log')+
qed

theorem conflict_later_wins_witness:
  "conflictAdds () 1 exEntry = Inr [Leaf (exInfo ''x'' 420)] \<and>
   conflictAdds () 2 exEntry = Inr [Leaf (exInfo ''x'' 384), Leaf (exInfo ''y'' 420)] \<and>
   Children exFmt conflictAdds () (newAddsForChild [1, 2] exEntry) =
     {([Leaf (exInfo ''x'' 384), Leaf (exInfo ''y'' 420)], None),
      ([Leaf (exInfo ''y'' 420), Leaf (exInfo ''x'' 384)], None)} \<and>
   Child exFmt conflictAdds () (newAddsForChild [1, 2] exEntry) ''x'' = Inr (Leaf (exInfo ''x'' 384)) \<and>
   LogError ''e'' ''x'' \<in> set (fst (addsClosure exFmt conflictAdds () exEntry [1, 2]))"
proof -
  have 1: "conflictAdds () 1 exEntry = Inr [Leaf (exInfo ''x'' 420)]"
    and 2: "conflictAdds () 2 exEntry = Inr [Leaf (exInfo ''x'' 384), Leaf (exInfo ''y'' 420)]"
    by (simp_all add: conflictAdds_def)
  have 3: "\<exists>a \<in> set [Leaf (exInfo ''x'' 420) :: nat node]. Name (Info a) = ''x''"
    and 4: "\<exists>a \<in> set [Leaf (exInfo ''x'' 384), Leaf (exInfo ''y'' 420) :: nat node].
              Name (Info a) = ''x''"
    by (simp_all add: exInfo_def)
  have 5: "Children exFmt conflictAdds () (newAddsForChild [1, 2] exEntry) =
     {([Leaf (exInfo ''x'' 384), Leaf (exInfo ''y'' 420)], None),
      ([Leaf (exInfo ''y'' 420), Leaf (exInfo ''x'' 384)], None)}"
    by (simp add: Children_newAddsForChild addsClosure_def conflictAdds_def exEntry_def
        exInfo_def wrappedSlices_def Let_def)
  have 6: "Name (Info exEntry) = ''e''"
    and 7: "last (filter (\<lambda>a. Name (Info a) = ''x'')
                   [Leaf (exInfo ''x'' 384), Leaf (exInfo ''y'' 420) :: nat node]) =
            Leaf (exInfo ''x'' 384)"
    by (simp_all add: exEntry_def exInfo_def)
  from conflict_later_wins [where fmtV = exFmt and ap = conflictAdds and ctx = "()" and e = exEntry and ?F1.0 = 1
      and ?F2.0 = 2 and x = "''x''", OF 1 2 3 4] 1 2 5
  show ?thesis
    unfolding 6 7 by simp
qed

text \<open>
  C5, as amended. If the \<^verbatim>\<open>Apply\<close> of some function fails on the entry and all functions
  before it in the list succeed, then the computation of the entry's additions stops there:
  the functions called are exactly those up to the failing one, no child is returned
  (neither by listing nor by lookup), and the failure surfaced is made of two things only,
  the text printed for the failing function and the function's own error. So the failure
  tells the function apart only as far as its printed text does, and the entry only as far
  as the function's own error does: any other failing run, on any entry and with any
  function list, whose failing function prints the same and returns the same error,
  surfaces the same failure.
\<close>

theorem apply_failure_aborts:
  assumes "\<forall>g \<in> set pre. \<exists>as. ap ctx g e = Inr as" and "ap ctx f e = Inl err"
  shows "snd (addsClosure fmtV ap ctx e (pre @ f # suf)) = Inl (ErrRunningFunc (fmtV f) err) \<and>
         appliedFns (fst (addsClosure fmtV ap ctx e (pre @ f # suf))) = pre @ [f] \<and>
         Children fmtV ap ctx (newAddsForChild (pre @ f # suf) e) =
           {([], Some (ErrRunningFunc (fmtV f) err))} \<and>
         Child fmtV ap ctx (newAddsForChild (pre @ f # suf) e) nm =
           Inl (ErrRunningFunc (fmtV f) err) \<and>
         ((\<forall>g \<in> set pre'. \<exists>as. ap ctx g e' = Inr as) \<and> ap ctx f' e' = Inl err \<and>
          fmtV f' = fmtV f \<longrightarrow>
            snd (addsClosure fmtV ap ctx e' (pre' @ f' # suf')) =
              snd (addsClosure fmtV ap ctx e (pre @ f # suf)) \<and>
            Children fmtV ap ctx (newAddsForChild (pre' @ f' # suf') e') =
              Children fmtV ap ctx (newAddsForChild (pre @ f # suf) e))"
proof -
  have run: "snd (addsClosure fmtV ap ctx e (pre @ f # suf)) = Inl (ErrRunningFunc (fmtV f) err) \<and>
         appliedFns (fst (addsClosure fmtV ap ctx e (pre @ f # suf))) = pre @ [f]"
    using fnLoop_fail [where pre = pre and fmtV = fmtV and ap = ap and ctx = ctx and e = e
        and f = f and err = err and suf = suf and adds = "[]" and tr = "[]"] assms
    by (simp add: addsClosure_def [symmetric])
  have other: "snd (addsClosure fmtV ap ctx e' (pre' @ f' # suf')) =
                 Inl (ErrRunningFunc (fmtV f) err)"
    if "\<forall>g \<in> set pre'. \<exists>as. ap ctx g e' = Inr as" and "ap ctx f' e' = Inl err"
      and "fmtV f' = fmtV f"
    using fnLoop_fail [where pre = pre' and fmtV = fmtV and ap = ap and ctx = ctx and e = e'
        and f = f' and err = err and suf = suf' and adds = "[]" and tr = "[]"] that
    by (simp add: addsClosure_def [symmetric])
  from run other show ?thesis
    by (simp add: Children_newAddsForChild Child_newAddsForChild)
qed

theorem apply_failure_aborts_witness:
  "failingFn () 3 exEntry = Inr [] \<and>
   failingFn () 7 exEntry = Inl (ErrOther ''boom'') \<and>
   failingFn () 8 (Leaf (exInfo ''b'' 420)) = Inl (ErrOther ''boom'') \<and>
   exFmt 8 = exFmt 7 \<and>
   snd (addsClosure exFmt failingFn () exEntry [3, 7, 4]) =
     Inl (ErrRunningFunc ''0x4a2b40'' (ErrOther ''boom'')) \<and>
   appliedFns (fst (addsClosure exFmt failingFn () exEntry [3, 7, 4])) = [3, 7] \<and>
   Children exFmt failingFn () (newAddsForChild [3, 7, 4] exEntry) =
     {([], Some (ErrRunningFunc ''0x4a2b40'' (ErrOther ''boom'')))} \<and>
   Child exFmt failingFn () (newAddsForChild [3, 7, 4] exEntry) ''v'' =
     Inl (ErrRunningFunc ''0x4a2b40'' (ErrOther ''boom'')) \<and>
   snd (addsClosure exFmt failingFn () (Leaf (exInfo ''b'' 420)) [8, 3]) =
     snd (addsClosure exFmt failingFn () exEntry [3, 7, 4]) \<and>
   Children exFmt failingFn () (newAddsForChild [8, 3] (Leaf (exInfo ''b'' 420))) =
     Children exFmt failingFn () (newAddsForChild [3, 7, 4] exEntry)"
proof -
  have 0: "failingFn () 3 exEntry = Inr []"
    and 2: "failingFn () 7 exEntry = Inl (ErrOther ''boom'')"
    and 3: "failingFn () 8 (Leaf (exInfo ''b'' 420)) = Inl (ErrOther ''boom'')"
    and 4: "exFmt 8 = exFmt 7"
    and 5: "exFmt 7 = ''0x4a2b40''"
    by (simp_all add: failingFn_def exFmt_def)
  from 0 have 1: "\<forall>g \<in> set [3]. \<exists>as. failingFn () g exEntry = Inr as"
    by simp
  have 6: "\<forall>g \<in> set []. \<exists>as. failingFn () g (Leaf (exInfo ''b'' 420)) = Inr as"
    by simp
  from apply_failure_aborts [where fmtV = exFmt and ap = failingFn and ctx = "()"
      and e = exEntry and pre = "[3]" and f = 7 and err = "ErrOther ''boom''" and suf = "[4]"
      and nm = "''v''" and pre' = "[]" and f' = 8 and suf' = "[3]"
      and e' = "Leaf (exInfo ''b'' 420)", OF 1 2] 0 2 3 4 6
  show ?thesis
    unfolding 5 by simp
qed

text \<open>
  C5, as stated, asks the failure to identify both the function and the entry. It does
  neither in general: one function failing the same way on two entries of different names
  gives the same failure, and so does a different function that prints the same.
\<close>

theorem failure_omits_entry:
  "Children exFmt failingFn () (newAddsForChild [7] (Leaf (exInfo ''a'' 420))) =
     {([], Some (ErrRunningFunc ''0x4a2b40'' (ErrOther ''boom'')))} \<and>
   Children exFmt failingFn () (newAddsForChild [7] (Leaf (exInfo ''b'' 420))) =
     {([], Some (ErrRunningFunc ''0x4a2b40'' (ErrOther ''boom'')))} \<and>
   Children exFmt failingFn () (newAddsForChild [8] (Leaf (exInfo ''a'' 420))) =
     {([], Some (ErrRunningFunc ''0x4a2b40'' (ErrOther ''boom'')))} \<and>
   Name (Info (Leaf (exInfo ''a'' 420) :: nat node)) \<noteq>
   Name (Info (Leaf (exInfo ''b'' 420) :: nat node)) \<and>
   (7 :: nat) \<noteq> 8"
  by (simp add: Children_newAddsForChild addsClosure_def failingFn_def exInfo_def exFmt_def)

text \<open>
  C8, as amended. The additions are accumulated in a map keyed by addition name and the
  functions are called in list order (the calls are a prefix of the list). Any two
  listings of the entry's additions directory, for the same entry and function list, have
  the same children with the same multiplicities and the same outcome, and no two
  children of a listing share a name; the order of the children is that of a Go map
  iteration and is not determined.
\<close>

theorem children_same_up_to_order:
  assumes "r1 \<in> Children fmtV ap ctx (newAddsForChild fns e)"
    and "r2 \<in> Children fmtV ap ctx (newAddsForChild fns e)"
  shows "mset (fst r1) = mset (fst r2) \<and> snd r1 = snd r2 \<and>
         distinct (map (\<lambda>c. Name (Info c)) (fst r1)) \<and>
         (\<exists>n. appliedFns (fst (addsClosure fmtV ap ctx e fns)) = take n fns)"
proof (cases "snd (addsClosure fmtV ap ctx e fns)")
  case (Inl err)
  with assms show ?thesis
    using fnLoop_applied_prefix [of fmtV ap ctx e fns "[]" "[]"]
    by (simp add: Children_newAddsForChild addsClosure_def)
next
  case (Inr adds)
  then have k: "keyed adds" by (rule addsClosure_keyed)
  from assms Inr have w1: "fst r1 \<in> set (wrappedSlices fns adds)" and "snd r1 = None"
    and w2: "fst r2 \<in> set (wrappedSlices fns adds)" and "snd r2 = None"
    by (auto simp: Children_newAddsForChild)
  moreover have "mset (fst r1) = mset (fst r2)"
    using wrappedSlices_mset [OF w1] wrappedSlices_mset [OF w2] by simp
  moreover have "distinct (map (\<lambda>c. Name (Info c)) (fst r1))"
    using k w1 by (rule wrappedSlices_distinct)
  ultimately show ?thesis
    using fnLoop_applied_prefix [of fmtV ap ctx e fns "[]" "[]"]
    by (simp add: addsClosure_def)
qed

theorem children_same_up_to_order_witness:
  "([Leaf (exInfo ''a'' 420), Leaf (exInfo ''b'' 420)], None)
     \<in> Children exFmt twoAdds () (newAddsForChild [0] exEntry) \<and>
   ([Leaf (exInfo ''b'' 420), Leaf (exInfo ''a'' 420)], None)
     \<in> Children exFmt twoAdds () (newAddsForChild [0] exEntry) \<and>
   mset [Leaf (exInfo ''a'' 420), Leaf (exInfo ''b'' 420) :: nat node] =
   mset [Leaf (exInfo ''b'' 420), Leaf (exInfo ''a'' 420)] \<and>
   distinct (map (\<lambda>c. Name (Info c))
               [Leaf (exInfo ''a'' 420), Leaf (exInfo ''b'' 420) :: nat node]) \<and>
   (\<exists>n. appliedFns (fst (addsClosure exFmt twoAdds () exEntry [0])) = take n [0])"
proof -
  have 1: "([Leaf (exInfo ''a'' 420), Leaf (exInfo ''b'' 420)], None)
     \<in> Children exFmt twoAdds () (newAddsForChild [0] exEntry)"
   and 2: "([Leaf (exInfo ''b'' 420), Leaf (exInfo ''a'' 420)], None)
     \<in> Children exFmt twoAdds () (newAddsForChild [0] exEntry)"
    by (simp_all add: Children_newAddsForChild addsClosure_def twoAdds_def exEntry_def
        exInfo_def wrappedSlices_def Let_def)
  from children_same_up_to_order [OF 1 2] 1 2 show ?thesis by simp
qed

text \<open>
  C8, as stated, asks two invocations to give the children in the same order. A function
  returning two additions gives an additions directory with two possible listings, in
  opposite orders.
\<close>

theorem listing_order_not_fixed:
  "([Leaf (exInfo ''a'' 420), Leaf (exInfo ''b'' 420)], None)
     \<in> Children exFmt twoAdds () (newAddsForChild [0] exEntry) \<and>
   ([Leaf (exInfo ''b'' 420), Leaf (exInfo ''a'' 420)], None)
     \<in> Children exFmt twoAdds () (newAddsForChild [0] exEntry) \<and>
   [Leaf (exInfo ''a'' 420), Leaf (exInfo ''b'' 420) :: nat node] \<noteq>
   [Leaf (exInfo ''b'' 420), Leaf (exInfo ''a'' 420)]"
  by (simp add: Children_newAddsForChild addsClosure_def twoAdds_def exEntry_def exInfo_def
      wrappedSlices_def Let_def)

end
